theory Spec2Isabelle
  imports Complex_Main
begin

section \<open>JavaScript numbers and errors\<close>

text \<open>
  A JavaScript \<^verbatim>\<open>number\<close> is a finite value, one of the two infinities, or NaN.
  The comparisons and \<^verbatim>\<open>Number.isInteger\<close> are exact on doubles, so finite values
  are read as reals. A comparison with NaN on either side is false.
\<close>

datatype number = Fin real | PInf | NInf | NaN

fun js_lt :: "number \<Rightarrow> number \<Rightarrow> bool" where
  "js_lt (Fin x) (Fin y) = (x < y)"
| "js_lt (Fin x) PInf = True"
| "js_lt NInf (Fin y) = True"
| "js_lt NInf PInf = True"
| "js_lt _ _ = False"

definition js_le :: "number \<Rightarrow> number \<Rightarrow> bool" where
  "js_le a b = (a \<noteq> NaN \<and> b \<noteq> NaN \<and> \<not> js_lt b a)"

definition js_ge :: "number \<Rightarrow> number \<Rightarrow> bool" where
  "js_ge a b = (a \<noteq> NaN \<and> b \<noteq> NaN \<and> \<not> js_lt a b)"

fun isInteger :: "number \<Rightarrow> bool" where
  "isInteger (Fin x) = (of_int \<lfloor>x\<rfloor> = x)"
| "isInteger _ = False"

text \<open>
  A thrown \<^verbatim>\<open>new Error(message)\<close> is \<open>Error message\<close>; reading a property of
  \<^verbatim>\<open>undefined\<close> throws a \<^verbatim>\<open>TypeError\<close>.
\<close>

datatype error = Error string | TypeError

section \<open>Phase 2: data model\<close>

record Point =
  row :: number
  column :: number

text \<open>
  \<^verbatim>\<open>Color\<close> and \<^verbatim>\<open>Direction\<close> are string-literal types: at run time the fields
  hold strings. \<^verbatim>\<open>direction\<close> is the result of a table lookup, which is
  \<^verbatim>\<open>undefined\<close> (\<open>None\<close>) for a missing key.
\<close>

datatype Cell =
    CellSpace
  | CellPolyanet
  | CellSoloon string
  | CellCometh "string option"

record Grid =
  height :: number
  width :: number

definition Grid_new :: "number \<Rightarrow> number \<Rightarrow> error + Grid" where
  "Grid_new h w =
     (if js_le h (Fin 0) \<or> js_le w (Fin 0) \<or> \<not> isInteger h \<or> \<not> isInteger w
      then Inl (Error ''Grid dimensions must be positive integers'')
      else Inr \<lparr>height = h, width = w\<rparr>)"

definition inBounds :: "Grid \<Rightarrow> Point \<Rightarrow> bool" where
  "inBounds g p =
     (js_ge (row p) (Fin 0) \<and> js_lt (row p) (height g) \<and>
      js_ge (column p) (Fin 0) \<and> js_lt (column p) (width g))"

section \<open>Phase 2: parsing\<close>

text \<open>ASCII case conversion, as \<^verbatim>\<open>toLowerCase\<close> and \<^verbatim>\<open>toUpperCase\<close> act on the
  letters the grammar produces.\<close>

definition lower_char :: "char \<Rightarrow> char" where
  "lower_char c =
     (case map_of (zip ''ABCDEFGHIJKLMNOPQRSTUVWXYZ'' ''abcdefghijklmnopqrstuvwxyz'') c of
        Some l \<Rightarrow> l | None \<Rightarrow> c)"

definition upper_char :: "char \<Rightarrow> char" where
  "upper_char c =
     (case map_of (zip ''abcdefghijklmnopqrstuvwxyz'' ''ABCDEFGHIJKLMNOPQRSTUVWXYZ'') c of
        Some u \<Rightarrow> u | None \<Rightarrow> c)"

definition toLowerCase :: "string \<Rightarrow> string" where
  "toLowerCase s = map lower_char s"

definition toUpperCase :: "string \<Rightarrow> string" where
  "toUpperCase s = map upper_char s"

text \<open>
  \<^verbatim>\<open>token.match(/^(A|B|...)SUFFIX$/)\<close>: the pattern is anchored at both ends, so it
  matches when the whole token is an alternative followed by the suffix; the
  alternatives are tried in order and group 1 is the one that matched.
\<close>

definition match_alternatives :: "string list \<Rightarrow> string \<Rightarrow> string \<Rightarrow> string option" where
  "match_alternatives alts suffix token = find (\<lambda>a. token = a @ suffix) alts"

definition dirMap :: "(string \<times> string) list" where
  "dirMap = [(''UP'', ''up''), (''DOWN'', ''down''), (''LEFT'', ''left''), (''RIGHT'', ''right'')]"

definition parseToken :: "string \<Rightarrow> error + Cell" where
  "parseToken token =
     (if token = ''SPACE'' then Inr CellSpace
      else if token = ''POLYANET'' then Inr CellPolyanet
      else case match_alternatives [''BLUE'', ''RED'', ''PURPLE'', ''WHITE''] ''_SOLOON'' token of
        Some colour \<Rightarrow> Inr (CellSoloon (toLowerCase colour))
      | None \<Rightarrow>
         (case match_alternatives [''UP'', ''DOWN'', ''LEFT'', ''RIGHT''] ''_COMETH'' token of
            Some d \<Rightarrow> Inr (CellCometh (map_of dirMap d))
          | None \<Rightarrow> Inl (Error (''Unknown token: '' @ token))))"

section \<open>Phase 2: the plan builder\<close>

text \<open>
  An Action's \<^verbatim>\<open>run\<close> is a thunk that performs one remote creation call; the call
  it would make is recorded as data.
\<close>

datatype remote_call =
    createPolyanet Point
  | createSoloon Point string
  | createCometh Point string

record Action =
  kind :: string
  run :: remote_call
  describe :: string

text \<open>The decimal rendering of a loop index inside a template literal.\<close>

fun toString :: "nat \<Rightarrow> string" where
  "toString n =
     (if n < 10 then [''0123456789'' ! n]
      else toString (n div 10) @ [''0123456789'' ! (n mod 10)])"

declare toString.simps [simp del]

text \<open>
  The body of the inner loop at indices \<open>r\<close>, \<open>c\<close>. Reading \<^verbatim>\<open>goal[r][c]\<close> past
  the end of the row gives \<^verbatim>\<open>undefined\<close>, on which \<^verbatim>\<open>parseToken\<close> throws a
  \<^verbatim>\<open>TypeError\<close> at \<^verbatim>\<open>token.match\<close>. \<^verbatim>\<open>continue\<close> and \<^verbatim>\<open>break\<close> leave the
  action list as it is.
\<close>

definition plan_cell :: "Grid \<Rightarrow> string list list \<Rightarrow> nat \<Rightarrow> nat \<Rightarrow> Action list \<Rightarrow> error + Action list" where
  "plan_cell grid goal r c actions =
     (case (if c < length (goal ! r) then parseToken (goal ! r ! c) else Inl TypeError) of
        Inl e \<Rightarrow> Inl e
      | Inr cell \<Rightarrow>
          let p = \<lparr>row = Fin (real r), column = Fin (real c)\<rparr> in
          if \<not> inBounds grid p then Inr actions
          else (case cell of
              CellSpace \<Rightarrow> Inr actions
            | CellPolyanet \<Rightarrow>
                Inr (actions @ [\<lparr>kind = ''create'', run = createPolyanet p,
                  describe = ''POLYANET @ ('' @ toString r @ '','' @ toString c @ '')''\<rparr>])
            | CellSoloon colour \<Rightarrow>
                Inr (actions @ [\<lparr>kind = ''create'', run = createSoloon p colour,
                  describe = toUpperCase colour @ ''_SOLOON @ ('' @ toString r @ '','' @ toString c @ '')''\<rparr>])
            | CellCometh d \<Rightarrow>
                (case d of
                   None \<Rightarrow> Inl TypeError
                 | Some direction \<Rightarrow>
                     Inr (actions @ [\<lparr>kind = ''create'', run = createCometh p direction,
                       describe = toUpperCase direction @ ''_COMETH @ ('' @ toString r @ '','' @ toString c @ '')''\<rparr>]))))"

text \<open>The two \<^verbatim>\<open>for\<close> loops, over the column and the row indices in increasing
  order; a throw in the body ends both.\<close>

fun plan_columns :: "Grid \<Rightarrow> string list list \<Rightarrow> nat \<Rightarrow> nat list \<Rightarrow> Action list \<Rightarrow> error + Action list" where
  "plan_columns grid goal r [] actions = Inr actions"
| "plan_columns grid goal r (c # cs) actions =
     (case plan_cell grid goal r c actions of
        Inl e \<Rightarrow> Inl e
      | Inr actions' \<Rightarrow> plan_columns grid goal r cs actions')"

fun plan_rows :: "Grid \<Rightarrow> string list list \<Rightarrow> nat \<Rightarrow> nat list \<Rightarrow> Action list \<Rightarrow> error + Action list" where
  "plan_rows grid goal w [] actions = Inr actions"
| "plan_rows grid goal w (r # rs) actions =
     (case plan_columns grid goal r [0..<w] actions of
        Inl e \<Rightarrow> Inl e
      | Inr actions' \<Rightarrow> plan_rows grid goal w rs actions')"

definition goal_height :: "string list list \<Rightarrow> nat" where
  "goal_height goal = length goal"

definition goal_width :: "string list list \<Rightarrow> nat" where
  "goal_width goal = (case goal of [] \<Rightarrow> 0 | row0 # _ \<Rightarrow> length row0)"

definition planActions :: "string list list \<Rightarrow> error + (Grid \<times> Action list)" where
  "planActions goal =
     (case Grid_new (Fin (real (goal_height goal))) (Fin (real (goal_width goal))) of
        Inl e \<Rightarrow> Inl e
      | Inr grid \<Rightarrow>
          (case plan_rows grid goal (goal_width goal) [0..<goal_height goal] [] of
             Inl e \<Rightarrow> Inl e
           | Inr actions \<Rightarrow> Inr (grid, actions)))"

text \<open>
  What the plan builder is specified to list: one label per cell that is not
  \<^verbatim>\<open>SPACE\<close>, in row-major order, the label being the token followed by its position.
\<close>

definition label :: "string \<Rightarrow> nat \<Rightarrow> nat \<Rightarrow> string" where
  "label token r c = token @ '' @ ('' @ toString r @ '','' @ toString c @ '')''"

definition row_major_labels :: "string list list \<Rightarrow> string list" where
  "row_major_labels goal =
     concat (map (\<lambda>r. concat (map (\<lambda>c.
        if goal ! r ! c = ''SPACE'' then [] else [label (goal ! r ! c) r c])
        [0..<goal_width goal])) [0..<goal_height goal])"

definition tokens :: "string list" where
  "tokens = [''SPACE'', ''POLYANET'', ''BLUE_SOLOON'', ''RED_SOLOON'', ''PURPLE_SOLOON'',
     ''WHITE_SOLOON'', ''UP_COMETH'', ''DOWN_COMETH'', ''LEFT_COMETH'', ''RIGHT_COMETH'']"

text \<open>A well-formed goal: at least one row and one column, every row as long as the
  first, every token in the grammar.\<close>

definition well_formed :: "string list list \<Rightarrow> bool" where
  "well_formed goal =
     (goal \<noteq> [] \<and> goal_width goal \<noteq> 0 \<and>
      list_all (\<lambda>row. length row = goal_width goal \<and> list_all (\<lambda>t. t \<in> set tokens) row) goal)"

definition labels_of :: "error + (Grid \<times> Action list) \<Rightarrow> error + string list" where
  "labels_of res = (case res of Inl e \<Rightarrow> Inl e | Inr (grid, actions) \<Rightarrow> Inr (map describe actions))"

definition cell_labels :: "string list list \<Rightarrow> nat \<Rightarrow> nat \<Rightarrow> string list" where
  "cell_labels goal r c = (if goal ! r ! c = ''SPACE'' then [] else [label (goal ! r ! c) r c])"

text \<open>
  The planner with the \<^verbatim>\<open>continue\<close> of the bounds guard replaced by an arbitrary
  outcome \<open>other\<close>, a throw for instance; everything else is as above. It is the
  planner itself exactly when the guard's branch is never taken.
\<close>

definition plan_cell_other ::
  "(error + Action list) \<Rightarrow> Grid \<Rightarrow> string list list \<Rightarrow> nat \<Rightarrow> nat \<Rightarrow> Action list \<Rightarrow> error + Action list" where
  "plan_cell_other other grid goal r c actions =
     (case (if c < length (goal ! r) then parseToken (goal ! r ! c) else Inl TypeError) of
        Inl e \<Rightarrow> Inl e
      | Inr cell \<Rightarrow>
          let p = \<lparr>row = Fin (real r), column = Fin (real c)\<rparr> in
          if \<not> inBounds grid p then other
          else (case cell of
              CellSpace \<Rightarrow> Inr actions
            | CellPolyanet \<Rightarrow>
                Inr (actions @ [\<lparr>kind = ''create'', run = createPolyanet p,
                  describe = ''POLYANET @ ('' @ toString r @ '','' @ toString c @ '')''\<rparr>])
            | CellSoloon colour \<Rightarrow>
                Inr (actions @ [\<lparr>kind = ''create'', run = createSoloon p colour,
                  describe = toUpperCase colour @ ''_SOLOON @ ('' @ toString r @ '','' @ toString c @ '')''\<rparr>])
            | CellCometh d \<Rightarrow>
                (case d of
                   None \<Rightarrow> Inl TypeError
                 | Some direction \<Rightarrow>
                     Inr (actions @ [\<lparr>kind = ''create'', run = createCometh p direction,
                       describe = toUpperCase direction @ ''_COMETH @ ('' @ toString r @ '','' @ toString c @ '')''\<rparr>]))))"

fun plan_columns_other ::
  "(error + Action list) \<Rightarrow> Grid \<Rightarrow> string list list \<Rightarrow> nat \<Rightarrow> nat list \<Rightarrow> Action list \<Rightarrow> error + Action list" where
  "plan_columns_other other grid goal r [] actions = Inr actions"
| "plan_columns_other other grid goal r (c # cs) actions =
     (case plan_cell_other other grid goal r c actions of
        Inl e \<Rightarrow> Inl e
      | Inr actions' \<Rightarrow> plan_columns_other other grid goal r cs actions')"

fun plan_rows_other ::
  "(error + Action list) \<Rightarrow> Grid \<Rightarrow> string list list \<Rightarrow> nat \<Rightarrow> nat list \<Rightarrow> Action list \<Rightarrow> error + Action list" where
  "plan_rows_other other grid goal w [] actions = Inr actions"
| "plan_rows_other other grid goal w (r # rs) actions =
     (case plan_columns_other other grid goal r [0..<w] actions of
        Inl e \<Rightarrow> Inl e
      | Inr actions' \<Rightarrow> plan_rows_other other grid goal w rs actions')"

definition planActions_other :: "(error + Action list) \<Rightarrow> string list list \<Rightarrow> error + (Grid \<times> Action list)" where
  "planActions_other other goal =
     (case Grid_new (Fin (real (goal_height goal))) (Fin (real (goal_width goal))) of
        Inl e \<Rightarrow> Inl e
      | Inr grid \<Rightarrow>
          (case plan_rows_other other grid goal (goal_width goal) [0..<goal_height goal] [] of
             Inl e \<Rightarrow> Inl e
           | Inr actions \<Rightarrow> Inr (grid, actions)))"

section \<open>The concurrency limiter\<close>

text \<open>
  The fields of a \<^verbatim>\<open>Limiter\<close>. The queue holds the resolve callbacks of the
  suspended callers; a callback is identified with the caller it wakes, and callers
  are numbered in the order of their calls to \<^verbatim>\<open>run\<close>.
\<close>

record Limiter =
  max_limiter :: number
  active :: int
  queue :: "nat list"

definition Limiter_new :: "number \<Rightarrow> error + Limiter" where
  "Limiter_new m =
     (if js_lt m (Fin 1) then Inl (Error ''Concurrency must be >= 1'')
      else Inr \<lparr>max_limiter = m, active = 0, queue = []\<rparr>)"

text \<open>
  \<^verbatim>\<open>run\<close> is an async function: it executes in synchronous segments separated by
  its two \<^verbatim>\<open>await\<close>s. Around the Limiter the state records what the event loop
  holds: the callers whose wait promise is resolved and whose continuation is in the
  job queue (\<open>woken\<close>, first in first out), the callers whose task is executing
  (\<open>running\<close>), the number of calls made so far, and two logs, the callers that
  suspended in the order they did and the callers admitted in the order they were.
\<close>

record system = Limiter +
  woken :: "nat list"
  running :: "nat list"
  calls :: nat
  suspended :: "nat list"
  admitted :: "nat list"

definition start :: "Limiter \<Rightarrow> system" where
  "start l = \<lparr>max_limiter = max_limiter l, active = active l, queue = queue l,
     woken = [], running = [], calls = 0, suspended = [], admitted = []\<rparr>"

text \<open>
  First segment of \<^verbatim>\<open>run\<close>, executed by the call itself: the admission test, then
  either the push of the resolve callback (the caller suspends) or
  \<^verbatim>\<open>this.active++\<close> and the start of the task.
\<close>

definition run_call :: "system \<Rightarrow> system" where
  "run_call s =
     (let t = calls s; s1 = s\<lparr>calls := Suc t\<rparr> in
      if js_ge (Fin (of_int (active s1))) (max_limiter s1)
      then s1\<lparr>queue := queue s1 @ [t], suspended := suspended s1 @ [t]\<rparr>
      else s1\<lparr>active := active s1 + 1, running := running s1 @ [t],
              admitted := admitted s1 @ [t]\<rparr>)"

text \<open>
  The continuation of a woken caller, taken from the head of the job queue: it goes
  on after the \<^verbatim>\<open>if\<close> without testing again, \<^verbatim>\<open>this.active++\<close>, and starts its
  task.
\<close>

definition run_resume :: "system \<Rightarrow> system option" where
  "run_resume s =
     (case woken s of
        [] \<Rightarrow> None
      | t # ws \<Rightarrow>
          Some (s\<lparr>woken := ws, active := active s + 1, running := running s @ [t],
                  admitted := admitted s @ [t]\<rparr>))"

text \<open>
  The \<^verbatim>\<open>finally\<close> block, run when the task of caller \<open>t\<close> has settled, with a
  value or with a failure: \<^verbatim>\<open>this.active--\<close>, then the head of the queue, if any,
  is shifted out and called, which puts that caller's continuation in the job queue.
\<close>

definition run_finally :: "nat \<Rightarrow> system \<Rightarrow> system option" where
  "run_finally t s =
     (if t \<notin> set (running s) then None
      else
        let s1 = s\<lparr>running := remove1 t (running s), active := active s - 1\<rparr> in
        Some (case queue s1 of
                [] \<Rightarrow> s1
              | next # rest \<Rightarrow> s1\<lparr>queue := rest, woken := woken s1 @ [next]\<rparr>))"

datatype event = Call | Settle nat | Resume

fun step :: "event \<Rightarrow> system \<Rightarrow> system option" where
  "step Call s = Some (run_call s)"
| "step (Settle t) s = run_finally t s"
| "step Resume s = run_resume s"

text \<open>A schedule is a list of events; it runs as far as each event is enabled.\<close>

fun exec :: "event list \<Rightarrow> system \<Rightarrow> system option" where
  "exec [] s = Some s"
| "exec (e # es) s = (case step e s of None \<Rightarrow> None | Some s' \<Rightarrow> exec es s')"

definition simulate :: "number \<Rightarrow> event list \<Rightarrow> system option" where
  "simulate m evs = (case Limiter_new m of Inl e \<Rightarrow> None | Inr l \<Rightarrow> exec evs (start l))"

text \<open>
  A schedule in which no call to \<^verbatim>\<open>run\<close> arrives while a woken caller has not
  resumed yet. The batch runner's schedules are of this kind: it makes all its
  calls in one synchronous \<^verbatim>\<open>map\<close>, before any task has settled.
\<close>

fun arrivals_settled :: "event list \<Rightarrow> system \<Rightarrow> bool" where
  "arrivals_settled [] s = True"
| "arrivals_settled (e # es) s =
     ((e = Call \<longrightarrow> woken s = []) \<and>
      (case step e s of None \<Rightarrow> True | Some s' \<Rightarrow> arrivals_settled es s'))"

definition simulate_settled :: "number \<Rightarrow> event list \<Rightarrow> bool" where
  "simulate_settled m evs =
     (case Limiter_new m of Inl e \<Rightarrow> False | Inr l \<Rightarrow> arrivals_settled evs (start l))"

section \<open>Phase 2: what the run submits\<close>

text \<open>
  \<^verbatim>\<open>main\<close> after the goal has been fetched: the plan is built, a dry run stops
  there, otherwise the Limiter is constructed and every action's \<^verbatim>\<open>run\<close> is handed
  to it. The result is the list of remote creation calls submitted, or the error
  that aborted the run.
\<close>

definition main_submitted :: "string list list \<Rightarrow> number \<Rightarrow> bool \<Rightarrow> error + remote_call list" where
  "main_submitted goal concurrency dryRun =
     (case planActions goal of
        Inl e \<Rightarrow> Inl e
      | Inr (grid, actions) \<Rightarrow>
          if dryRun then Inr []
          else (case Limiter_new concurrency of
                  Inl e \<Rightarrow> Inl e
                | Inr limiter \<Rightarrow> Inr (map run actions)))"

section \<open>The backoff-retry executor\<close>

text \<open>
  What \<^verbatim>\<open>err?.status\<close> can read off a thrown value: nothing (no such property, or
  the thrown value itself is nullish), \<^verbatim>\<open>null\<close>, or a number. The remote client
  sets it to the HTTP status of the response; a network fault has none.
\<close>

datatype status_value = Undefined | Null | Status number

record failure =
  status :: status_value
  message :: string

text \<open>Conversion to a number for \<^verbatim>\<open>>=\<close>, and truthiness for \<^verbatim>\<open>&&\<close>.\<close>

fun to_number :: "status_value \<Rightarrow> number" where
  "to_number Undefined = NaN"
| "to_number Null = Fin 0"
| "to_number (Status n) = n"

fun truthy :: "status_value \<Rightarrow> bool" where
  "truthy Undefined = False"
| "truthy Null = False"
| "truthy (Status NaN) = False"
| "truthy (Status (Fin x)) = (x \<noteq> 0)"
| "truthy (Status _) = True"

text \<open>
  Phase 2: \<^verbatim>\<open>status === 429 || (status != null && status >= 500) || status === undefined\<close>.
  The loose \<^verbatim>\<open>!= null\<close> is false on both \<^verbatim>\<open>null\<close> and \<^verbatim>\<open>undefined\<close>.
\<close>

definition transient :: "status_value \<Rightarrow> bool" where
  "transient st =
     (st = Status (Fin 429) \<or>
      ((st \<noteq> Null \<and> st \<noteq> Undefined) \<and> js_ge (to_number st) (Fin 500)) \<or>
      st = Undefined)"

text \<open>
  Phase 1: \<^verbatim>\<open>status === 429 || (status && status >= 500) || status === undefined\<close>,
  read for its truthiness, as \<^verbatim>\<open>!transient\<close> does.
\<close>

definition transient_phase1 :: "status_value \<Rightarrow> bool" where
  "transient_phase1 st =
     (st = Status (Fin 429) \<or>
      (truthy st \<and> js_ge (to_number st) (Fin 500)) \<or>
      st = Undefined)"

text \<open>
  What a call of \<^verbatim>\<open>withRetry\<close> does, in order: invocations of the operation, calls
  of the \<^verbatim>\<open>onRetry\<close> hook with its two arguments, and sleeps with their delay.
\<close>

datatype effect = Invoke | OnRetry failure nat | Sleep number

text \<open>
  The delay is computed in double arithmetic. The product and the power of two
  doubles round their exact result to a double and overflow to an infinity; these two
  operations of the language are taken as given, and everything below holds for
  whatever they return. \<^verbatim>\<open>2 ** attempt\<close> and \<^verbatim>\<open>Math.pow(2, attempt)\<close> are the
  same operation of the language.
\<close>

record arith =
  fmul :: "number \<Rightarrow> number \<Rightarrow> number"
  fpow :: "number \<Rightarrow> number \<Rightarrow> number"

text \<open>\<^verbatim>\<open>Math.round\<close>: the nearest integer, a half going up. It is exact, and leaves
  the infinities and NaN as they are.\<close>

fun Math_round :: "number \<Rightarrow> number" where
  "Math_round (Fin x) = Fin (of_int \<lfloor>x + 1 / 2\<rfloor>)"
| "Math_round n = n"

text \<open>Phase 2: \<^verbatim>\<open>Math.round(Math.random() * baseMs * 2 ** attempt)\<close>, the product
  associating to the left.\<close>

definition backoff_delay :: "arith \<Rightarrow> number \<Rightarrow> number \<Rightarrow> nat \<Rightarrow> number" where
  "backoff_delay ar u baseMs attempt =
     Math_round (fmul ar (fmul ar u baseMs) (fpow ar (Fin 2) (Fin (real attempt))))"

text \<open>Phase 1: \<^verbatim>\<open>Math.round(Math.random() * baseMs * Math.pow(2, attempt))\<close>.\<close>

definition backoff_delay_phase1 :: "arith \<Rightarrow> number \<Rightarrow> number \<Rightarrow> nat \<Rightarrow> number" where
  "backoff_delay_phase1 ar u baseMs attempt =
     Math_round (fmul ar (fmul ar u baseMs) (fpow ar (Fin 2) (Fin (real attempt))))"

text \<open>
  The \<^verbatim>\<open>while (true)\<close> loop of phase 2. The operation \<open>fn\<close> acts on the state of
  the world \<open>w\<close> and returns a value (\<open>Inr\<close>) or throws a failure (\<open>Inl\<close>);
  \<open>rnd k\<close> is the result of the call's \<open>k\<close>-th \<^verbatim>\<open>Math.random()\<close>, one per
  retry. The result is the effects in order, the outcome and the final world.
\<close>

function withRetry_loop ::
  "arith \<Rightarrow> ('w \<Rightarrow> (failure + 'a) \<times> 'w) \<Rightarrow> int \<Rightarrow> number \<Rightarrow> bool \<Rightarrow> (nat \<Rightarrow> number) \<Rightarrow> nat \<Rightarrow> 'w
     \<Rightarrow> effect list \<times> (failure + 'a) \<times> 'w" where
  "withRetry_loop ar fn retries baseMs hook rnd attempt w =
     (case fn w of
        (Inr v, w') \<Rightarrow> ([Invoke], Inr v, w')
      | (Inl err, w') \<Rightarrow>
          if int attempt \<ge> retries \<or> \<not> transient (status err) then ([Invoke], Inl err, w')
          else
            let delay = backoff_delay ar (rnd attempt) baseMs attempt;
                (effects, outcome, w'') =
                  withRetry_loop ar fn retries baseMs hook rnd (attempt + 1) w'
            in (Invoke # (if hook then [OnRetry err (attempt + 1)] else []) @ Sleep delay # effects,
                outcome, w''))"
  by pat_completeness auto
termination
  by (relation "measure (\<lambda>(ar, fn, retries, baseMs, hook, rnd, attempt, w). nat (retries - int attempt))") auto

declare withRetry_loop.simps [simp del]

text \<open>The same loop as phase 1 writes it.\<close>

function withRetry_loop_phase1 ::
  "arith \<Rightarrow> ('w \<Rightarrow> (failure + 'a) \<times> 'w) \<Rightarrow> int \<Rightarrow> number \<Rightarrow> bool \<Rightarrow> (nat \<Rightarrow> number) \<Rightarrow> nat \<Rightarrow> 'w
     \<Rightarrow> effect list \<times> (failure + 'a) \<times> 'w" where
  "withRetry_loop_phase1 ar fn retries baseMs hook rnd attempt w =
     (case fn w of
        (Inr v, w') \<Rightarrow> ([Invoke], Inr v, w')
      | (Inl err, w') \<Rightarrow>
          if int attempt \<ge> retries \<or> \<not> transient_phase1 (status err) then ([Invoke], Inl err, w')
          else
            let delay = backoff_delay_phase1 ar (rnd attempt) baseMs attempt;
                (effects, outcome, w'') =
                  withRetry_loop_phase1 ar fn retries baseMs hook rnd (attempt + 1) w'
            in (Invoke # (if hook then [OnRetry err (attempt + 1)] else []) @ Sleep delay # effects,
                outcome, w''))"
  by pat_completeness auto
termination
  by (relation "measure (\<lambda>(ar, fn, retries, baseMs, hook, rnd, attempt, w). nat (retries - int attempt))") auto

declare withRetry_loop_phase1.simps [simp del]

text \<open>
  The options object; an absent \<^verbatim>\<open>retries\<close> or \<^verbatim>\<open>baseMs\<close> is \<open>None\<close> and
  takes the default of the phase. \<open>onRetry\<close> tells whether a hook was given.
\<close>

record opts =
  retries :: "int option"
  baseMs :: "number option"
  onRetry :: bool

definition withRetry ::
  "arith \<Rightarrow> ('w \<Rightarrow> (failure + 'a) \<times> 'w) \<Rightarrow> opts \<Rightarrow> (nat \<Rightarrow> number) \<Rightarrow> 'w
     \<Rightarrow> effect list \<times> (failure + 'a) \<times> 'w" where
  "withRetry ar fn os rnd w =
     (let retries = (case retries os of None \<Rightarrow> 6 | Some r \<Rightarrow> r);
          baseMs = (case baseMs os of None \<Rightarrow> Fin 250 | Some b \<Rightarrow> b)
      in withRetry_loop ar fn retries baseMs (onRetry os) rnd 0 w)"

definition withRetry_phase1 ::
  "arith \<Rightarrow> ('w \<Rightarrow> (failure + 'a) \<times> 'w) \<Rightarrow> opts \<Rightarrow> (nat \<Rightarrow> number) \<Rightarrow> 'w
     \<Rightarrow> effect list \<times> (failure + 'a) \<times> 'w" where
  "withRetry_phase1 ar fn os rnd w =
     (let retries = (case retries os of None \<Rightarrow> 5 | Some r \<Rightarrow> r);
          baseMs = (case baseMs os of None \<Rightarrow> Fin 300 | Some b \<Rightarrow> b)
      in withRetry_loop_phase1 ar fn retries baseMs (onRetry os) rnd 0 w)"

text \<open>The number of times the operation was invoked.\<close>

definition attempts :: "effect list \<times> (failure + 'a) \<times> 'w \<Rightarrow> nat" where
  "attempts res = length (filter (\<lambda>e. e = Invoke) (fst res))"

definition hook_calls :: "effect list \<times> (failure + 'a) \<times> 'w \<Rightarrow> (failure \<times> nat) list" where
  "hook_calls res = concat (map (\<lambda>e. case e of OnRetry err n \<Rightarrow> [(err, n)] | _ \<Rightarrow> []) (fst res))"

definition outcome :: "effect list \<times> (failure + 'a) \<times> 'w \<Rightarrow> failure + 'a" where
  "outcome res = fst (snd res)"

text \<open>An operation that fails every time with the same status; the world counts
  its invocations.\<close>

definition always_fails :: "status_value \<Rightarrow> nat \<Rightarrow> (failure + unit) \<times> nat" where
  "always_fails st n = (Inl \<lparr>status = st, message = ''failed''\<rparr>, Suc n)"

text \<open>An operation that fails with the statuses of a script, one per invocation, and
  succeeds once the script is used up.\<close>

definition scripted :: "status_value list \<Rightarrow> (failure + unit) \<times> status_value list" where
  "scripted sts =
     (case sts of
        [] \<Rightarrow> (Inr (), [])
      | st # rest \<Rightarrow> (Inl \<lparr>status = st, message = ''failed''\<rparr>, rest))"

text \<open>The world after \<open>k\<close> invocations of the operation in a row.\<close>

primrec world_after :: "('w \<Rightarrow> 'r \<times> 'w) \<Rightarrow> nat \<Rightarrow> 'w \<Rightarrow> 'w" where
  "world_after fn 0 w = w"
| "world_after fn (Suc k) w = world_after fn k (snd (fn w))"

text \<open>
  Inputs for the examples: every draw is 1/2, and the operands that occur are 1/2,
  a whole number of milliseconds and a small power of two. On such operands the exact
  product and power are doubles, so the double operations return them unrounded;
  \<open>example_arith\<close> gives these values and is used on no other operands.
\<close>

definition draws_half :: "nat \<Rightarrow> number" where
  "draws_half k = Fin (1 / 2)"

fun example_mul :: "number \<Rightarrow> number \<Rightarrow> number" where
  "example_mul (Fin x) (Fin y) = Fin (x * y)"
| "example_mul _ _ = NaN"

fun example_pow :: "number \<Rightarrow> number \<Rightarrow> number" where
  "example_pow (Fin x) (Fin y) = Fin (x ^ nat \<lfloor>y\<rfloor>)"
| "example_pow _ _ = NaN"

definition example_arith :: arith where
  "example_arith = \<lparr>fmul = example_mul, fpow = example_pow\<rparr>"

section \<open>Invariants of the limiter\<close>

text \<open>Slots: the counter is the number of running tasks, the running tasks and the
  woken callers together fit in \<open>m\<close> slots, and callers wait only when all slots are
  taken or promised.\<close>

definition slots_inv :: "int \<Rightarrow> system \<Rightarrow> bool" where
  "slots_inv m s =
     (max_limiter s = Fin (of_int m) \<and> 0 \<le> active s \<and>
      active s + int (length (woken s)) \<le> m \<and>
      (active s + int (length (woken s)) < m \<longrightarrow> queue s = []) \<and>
      active s = int (length (running s)))"

text \<open>Order: the suspended callers are, in their order of arrival, those admitted
  since, then those woken, then those still queued.\<close>

definition fifo_inv :: "system \<Rightarrow> bool" where
  "fifo_inv s =
     (filter (\<lambda>t. t \<in> set (suspended s)) (admitted s) @ woken s @ queue s = suspended s \<and>
      (\<forall>t \<in> set (suspended s) \<union> set (admitted s). t < calls s))"

text \<open>With \<open>max = NaN\<close> nobody ever waits.\<close>

definition nan_inv :: "system \<Rightarrow> bool" where
  "nan_inv s =
     (max_limiter s = NaN \<and> suspended s = [] \<and> queue s = [] \<and> woken s = [] \<and>
      admitted s = [0..<calls s])"

section \<open>Properties of the parser and the grid\<close>

lemma isInteger_iff: "isInteger v \<longleftrightarrow> (\<exists>n::int. v = Fin (of_int n))"
  by (cases v) (auto intro: exI[of _ "\<lfloor>_\<rfloor>"])

lemma Grid_new_cases:
  "Grid_new h w =
     (if (\<exists>n::int. 0 < n \<and> h = Fin (of_int n)) \<and> (\<exists>n::int. 0 < n \<and> w = Fin (of_int n))
      then Inr \<lparr>height = h, width = w\<rparr>
      else Inl (Error ''Grid dimensions must be positive integers''))"
  by (cases h; cases w) (auto simp: Grid_new_def js_le_def isInteger_iff)

lemma Grid_new_in_bounds:
  "Grid_new (Fin (real h)) (Fin (real w)) = Inr grid \<Longrightarrow> r < h \<Longrightarrow> c < w \<Longrightarrow>
   inBounds grid \<lparr>row = Fin (real r), column = Fin (real c)\<rparr>"
  by (auto simp: Grid_new_def inBounds_def js_ge_def split: if_splits)

lemma upper_words:
  "toUpperCase ''blue'' = ''BLUE''" "toUpperCase ''red'' = ''RED''"
  "toUpperCase ''purple'' = ''PURPLE''" "toUpperCase ''white'' = ''WHITE''"
  "toUpperCase ''up'' = ''UP''" "toUpperCase ''down'' = ''DOWN''"
  "toUpperCase ''left'' = ''LEFT''" "toUpperCase ''right'' = ''RIGHT''"
  by (simp_all add: toUpperCase_def upper_char_def)

lemma parseToken_tokens:
  "parseToken ''SPACE'' = Inr CellSpace"
  "parseToken ''POLYANET'' = Inr CellPolyanet"
  "parseToken ''BLUE_SOLOON'' = Inr (CellSoloon ''blue'')"
  "parseToken ''RED_SOLOON'' = Inr (CellSoloon ''red'')"
  "parseToken ''PURPLE_SOLOON'' = Inr (CellSoloon ''purple'')"
  "parseToken ''WHITE_SOLOON'' = Inr (CellSoloon ''white'')"
  "parseToken ''UP_COMETH'' = Inr (CellCometh (Some ''up''))"
  "parseToken ''DOWN_COMETH'' = Inr (CellCometh (Some ''down''))"
  "parseToken ''LEFT_COMETH'' = Inr (CellCometh (Some ''left''))"
  "parseToken ''RIGHT_COMETH'' = Inr (CellCometh (Some ''right''))"
  by (simp_all add: parseToken_def match_alternatives_def toLowerCase_def lower_char_def dirMap_def)

text \<open>
  Claim C6. \<^verbatim>\<open>parseToken\<close> maps \<^verbatim>\<open>SPACE\<close> to the empty cell, \<^verbatim>\<open>POLYANET\<close> to the
  polyanet cell, each of the four \<^verbatim>\<open><COLOR>_SOLOON\<close> tokens to a soloon cell with the
  colour in lower case, each of the four \<^verbatim>\<open><DIR>_COMETH\<close> tokens to a cometh cell
  with the direction in lower case, and throws the unknown-token error on every
  other string.
\<close>

theorem parseToken_grammar:
  "parseToken t =
    (if t = ''SPACE'' then Inr CellSpace
     else if t = ''POLYANET'' then Inr CellPolyanet
     else if t = ''BLUE_SOLOON'' then Inr (CellSoloon ''blue'')
     else if t = ''RED_SOLOON'' then Inr (CellSoloon ''red'')
     else if t = ''PURPLE_SOLOON'' then Inr (CellSoloon ''purple'')
     else if t = ''WHITE_SOLOON'' then Inr (CellSoloon ''white'')
     else if t = ''UP_COMETH'' then Inr (CellCometh (Some ''up''))
     else if t = ''DOWN_COMETH'' then Inr (CellCometh (Some ''down''))
     else if t = ''LEFT_COMETH'' then Inr (CellCometh (Some ''left''))
     else if t = ''RIGHT_COMETH'' then Inr (CellCometh (Some ''right''))
     else Inl (Error (''Unknown token: '' @ t)))"
  by (simp add: parseToken_def match_alternatives_def toLowerCase_def lower_char_def dirMap_def)

theorem parseToken_grammar_witness:
  "parseToken ''GREEN_SOLOON'' = Inl (Error ''Unknown token: GREEN_SOLOON'')"
  using parseToken_grammar [of "''GREEN_SOLOON''"] by simp

text \<open>
  Claim C8. Constructing a Grid throws the validation error exactly when the height
  or the width is not a positive integer, and otherwise yields the grid. The throw
  happens in the constructor: when the dimensions taken from a goal are rejected,
  \<^verbatim>\<open>planActions\<close> ends with that error, having built no Action, and the run
  submits no remote creation call.
\<close>

theorem Grid_validation:
  "Grid_new h w =
     (if (\<exists>n::int. 0 < n \<and> h = Fin (of_int n)) \<and> (\<exists>n::int. 0 < n \<and> w = Fin (of_int n))
      then Inr \<lparr>height = h, width = w\<rparr>
      else Inl (Error ''Grid dimensions must be positive integers'')) \<and>
   (Grid_new (Fin (real (goal_height goal))) (Fin (real (goal_width goal))) = Inl e \<longrightarrow>
      planActions goal = Inl e \<and> main_submitted goal concurrency dryRun = Inl e)"
  by (simp add: Grid_new_cases planActions_def main_submitted_def)

theorem Grid_validation_witness:
  "Grid_new (Fin (real (goal_height [[]]))) (Fin (real (goal_width [[]])))
     = Inl (Error ''Grid dimensions must be positive integers'') \<and>
   planActions [[]] = Inl (Error ''Grid dimensions must be positive integers'') \<and>
   main_submitted [[]] (Fin 8) False = Inl (Error ''Grid dimensions must be positive integers'')"
proof -
  have g: "Grid_new (Fin (real (goal_height [[]]))) (Fin (real (goal_width [[]])))
     = Inl (Error ''Grid dimensions must be positive integers'')"
    by (simp add: Grid_new_def goal_height_def goal_width_def js_le_def)
  show ?thesis
    using g Grid_validation [of "Fin 1" "Fin 0" "[[]]"
        "Error ''Grid dimensions must be positive integers''" "Fin 8" False]
    by simp
qed

lemma plan_cell_other_eq:
  "inBounds grid \<lparr>row = Fin (real r), column = Fin (real c)\<rparr> \<Longrightarrow>
   plan_cell_other other grid goal r c actions = plan_cell grid goal r c actions"
  by (simp add: plan_cell_other_def plan_cell_def Let_def split: sum.splits)

lemma plan_columns_other_eq:
  "\<forall>c \<in> set cs. inBounds grid \<lparr>row = Fin (real r), column = Fin (real c)\<rparr> \<Longrightarrow>
   plan_columns_other other grid goal r cs actions = plan_columns grid goal r cs actions"
  by (induction cs arbitrary: actions) (simp_all add: plan_cell_other_eq split: sum.splits)

lemma plan_rows_other_eq:
  "\<forall>r \<in> set rs. \<forall>c < w. inBounds grid \<lparr>row = Fin (real r), column = Fin (real c)\<rparr> \<Longrightarrow>
   plan_rows_other other grid goal w rs actions = plan_rows grid goal w rs actions"
  by (induction rs arbitrary: actions) (simp_all add: plan_columns_other_eq split: sum.splits)

text \<open>
  Claim C7. On every goal the guard's branch is never taken: with the
  \<^verbatim>\<open>continue\<close> on \<^verbatim>\<open>!grid.inBounds(p)\<close> replaced by any other outcome, a
  throw for instance, \<^verbatim>\<open>planActions\<close> returns the same result, and so do the two
  loops once the Grid built from the goal's dimensions is accepted. Every Point
  the loops construct, with \<open>r\<close> below the height and \<open>c\<close> below the width, is in
  bounds, so no visited cell is left out for being out of bounds.
\<close>

theorem plan_points_in_bounds:
  "planActions_other other goal = planActions goal \<and>
   (Grid_new (Fin (real (goal_height goal))) (Fin (real (goal_width goal))) = Inr grid \<longrightarrow>
      plan_rows_other other grid goal (goal_width goal) [0..<goal_height goal] actions =
        plan_rows grid goal (goal_width goal) [0..<goal_height goal] actions \<and>
      (\<forall>r < goal_height goal. \<forall>c < goal_width goal.
         inBounds grid \<lparr>row = Fin (real r), column = Fin (real c)\<rparr>))"
proof -
  have rows: "plan_rows_other other grid goal (goal_width goal) [0..<goal_height goal] acts =
        plan_rows grid goal (goal_width goal) [0..<goal_height goal] acts"
    and pts: "\<forall>r < goal_height goal. \<forall>c < goal_width goal.
         inBounds grid \<lparr>row = Fin (real r), column = Fin (real c)\<rparr>"
    if g: "Grid_new (Fin (real (goal_height goal))) (Fin (real (goal_width goal))) = Inr grid"
    for grid acts
  proof -
    show p: "\<forall>r < goal_height goal. \<forall>c < goal_width goal.
         inBounds grid \<lparr>row = Fin (real r), column = Fin (real c)\<rparr>"
      using Grid_new_in_bounds[OF g] by blast
    then show "plan_rows_other other grid goal (goal_width goal) [0..<goal_height goal] acts =
        plan_rows grid goal (goal_width goal) [0..<goal_height goal] acts"
      by (intro plan_rows_other_eq) simp
  qed
  have "planActions_other other goal = planActions goal"
    by (cases "Grid_new (Fin (real (goal_height goal))) (Fin (real (goal_width goal)))")
       (simp_all add: planActions_other_def planActions_def rows)
  with rows pts show ?thesis by blast
qed

theorem plan_points_in_bounds_witness:
  "Grid_new (Fin (real (goal_height [[''SPACE'', ''POLYANET'']])))
      (Fin (real (goal_width [[''SPACE'', ''POLYANET'']]))) = Inr \<lparr>height = Fin 1, width = Fin 2\<rparr> \<and>
   planActions_other (Inl (Error ''out of bounds'')) [[''SPACE'', ''POLYANET'']] =
     Inr (\<lparr>height = Fin 1, width = Fin 2\<rparr>,
          [\<lparr>kind = ''create'', run = createPolyanet \<lparr>row = Fin 0, column = Fin 1\<rparr>,
            describe = ''POLYANET @ (0,1)''\<rparr>]) \<and>
   inBounds \<lparr>height = Fin 1, width = Fin 2\<rparr> \<lparr>row = Fin 0, column = Fin 1\<rparr>"
proof -
  have hw: "goal_height [[''SPACE'', ''POLYANET'']] = 1" "goal_width [[''SPACE'', ''POLYANET'']] = 2"
    by (simp_all add: goal_height_def goal_width_def)
  have g: "Grid_new (Fin 1) (Fin 2) = Inr \<lparr>height = Fin 1, width = Fin 2\<rparr>"
    by (simp add: Grid_new_def js_le_def)
  have p: "planActions [[''SPACE'', ''POLYANET'']] =
     Inr (\<lparr>height = Fin 1, width = Fin 2\<rparr>,
          [\<lparr>kind = ''create'', run = createPolyanet \<lparr>row = Fin 0, column = Fin 1\<rparr>,
            describe = ''POLYANET @ (0,1)''\<rparr>])"
    by (simp add: planActions_def hw g upt_rec plan_cell_def
        parseToken_tokens inBounds_def js_ge_def toString.simps)
  show ?thesis
    using g p plan_points_in_bounds [of "Inl (Error ''out of bounds'')" "[[''SPACE'', ''POLYANET'']]"
        "\<lparr>height = Fin 1, width = Fin 2\<rparr>" "[]"]
    by (simp add: hw inBounds_def js_ge_def)
qed

section \<open>Properties of the plan builder\<close>

lemma plan_cell_token:
  assumes "c < length (goal ! r)" and "goal ! r ! c \<in> set tokens"
    and "inBounds grid \<lparr>row = Fin (real r), column = Fin (real c)\<rparr>"
  shows "\<exists>new. plan_cell grid goal r c actions = Inr (actions @ new) \<and>
               map describe new = cell_labels goal r c"
proof -
  from assms(2) consider
      "goal ! r ! c = ''SPACE''" | "goal ! r ! c = ''POLYANET''"
    | "goal ! r ! c = ''BLUE_SOLOON''" | "goal ! r ! c = ''RED_SOLOON''"
    | "goal ! r ! c = ''PURPLE_SOLOON''" | "goal ! r ! c = ''WHITE_SOLOON''"
    | "goal ! r ! c = ''UP_COMETH''" | "goal ! r ! c = ''DOWN_COMETH''"
    | "goal ! r ! c = ''LEFT_COMETH''" | "goal ! r ! c = ''RIGHT_COMETH''"
    unfolding tokens_def by auto
  then show ?thesis
    using assms(1,3)
    by cases (simp_all add: plan_cell_def parseToken_tokens upper_words cell_labels_def label_def)
qed

lemma plan_columns_tokens:
  assumes "\<forall>c \<in> set cs. c < length (goal ! r) \<and> goal ! r ! c \<in> set tokens \<and>
             inBounds grid \<lparr>row = Fin (real r), column = Fin (real c)\<rparr>"
  shows "\<exists>new. plan_columns grid goal r cs actions = Inr (actions @ new) \<and>
               map describe new = concat (map (cell_labels goal r) cs)"
  using assms
proof (induction cs arbitrary: actions)
  case Nil
  then show ?case by simp
next
  case (Cons c cs)
  from Cons.prems obtain new1 where
    1: "plan_cell grid goal r c actions = Inr (actions @ new1)"
       "map describe new1 = cell_labels goal r c"
    using plan_cell_token[of c goal r grid actions] by auto
  from Cons.IH[of "actions @ new1"] Cons.prems obtain new2 where
    2: "plan_columns grid goal r cs (actions @ new1) = Inr ((actions @ new1) @ new2)"
       "map describe new2 = concat (map (cell_labels goal r) cs)"
    by auto
  show ?case
    by (rule exI[of _ "new1 @ new2"]) (simp add: 1 2)
qed

lemma plan_rows_tokens:
  assumes "\<forall>r \<in> set rs. \<forall>c < w. c < length (goal ! r) \<and> goal ! r ! c \<in> set tokens \<and>
             inBounds grid \<lparr>row = Fin (real r), column = Fin (real c)\<rparr>"
  shows "\<exists>new. plan_rows grid goal w rs actions = Inr (actions @ new) \<and>
               map describe new = concat (map (\<lambda>r. concat (map (cell_labels goal r) [0..<w])) rs)"
  using assms
proof (induction rs arbitrary: actions)
  case Nil
  then show ?case by simp
next
  case (Cons r rs)
  from Cons.prems obtain new1 where
    1: "plan_columns grid goal r [0..<w] actions = Inr (actions @ new1)"
       "map describe new1 = concat (map (cell_labels goal r) [0..<w])"
    using plan_columns_tokens[of "[0..<w]" goal r grid actions] by auto
  from Cons.IH[of "actions @ new1"] Cons.prems obtain new2 where
    2: "plan_rows grid goal w rs (actions @ new1) = Inr ((actions @ new1) @ new2)"
       "map describe new2 = concat (map (\<lambda>r. concat (map (cell_labels goal r) [0..<w])) rs)"
    by auto
  show ?case
    by (rule exI[of _ "new1 @ new2"]) (simp add: 1 2)
qed

lemma well_formed_Grid:
  "well_formed goal \<Longrightarrow>
   Grid_new (Fin (real (goal_height goal))) (Fin (real (goal_width goal))) =
     Inr \<lparr>height = Fin (real (goal_height goal)), width = Fin (real (goal_width goal))\<rparr>"
  by (auto simp: well_formed_def Grid_new_def js_le_def goal_height_def)

lemma planActions_labels:
  assumes "well_formed goal"
  shows "labels_of (planActions goal) = Inr (row_major_labels goal)"
proof -
  let ?h = "goal_height goal" and ?w = "goal_width goal"
  let ?g = "\<lparr>height = Fin (real ?h), width = Fin (real ?w)\<rparr>"
  have g: "Grid_new (Fin (real ?h)) (Fin (real ?w)) = Inr ?g"
    using assms by (rule well_formed_Grid)
  have cells: "\<forall>r \<in> set [0..<?h]. \<forall>c < ?w. c < length (goal ! r) \<and> goal ! r ! c \<in> set tokens \<and>
             inBounds ?g \<lparr>row = Fin (real r), column = Fin (real c)\<rparr>"
    using assms Grid_new_in_bounds[OF g]
    by (auto simp: well_formed_def list_all_length goal_height_def)
  obtain new where
    "plan_rows ?g goal ?w [0..<?h] [] = Inr ([] @ new)"
    "map describe new = concat (map (\<lambda>r. concat (map (cell_labels goal r) [0..<?w])) [0..<?h])"
    using plan_rows_tokens[OF cells, of "[]"] by auto
  then show ?thesis
    by (simp add: planActions_def g labels_of_def row_major_labels_def cell_labels_def[abs_def])
qed

text \<open>
  Claim C5. On the 2 by 2 goal \<^verbatim>\<open>[["POLYANET","SPACE"],["BLUE_SOLOON","RIGHT_COMETH"]]\<close>
  \<^verbatim>\<open>planActions\<close> produces exactly three Actions, labelled \<^verbatim>\<open>POLYANET @ (0,0)\<close>,
  \<^verbatim>\<open>BLUE_SOLOON @ (1,0)\<close> and \<^verbatim>\<open>RIGHT_COMETH @ (1,1)\<close> in this order. For every
  well-formed goal the Action list is a function of the goal and lists the cells
  that are not \<^verbatim>\<open>SPACE\<close> in row-major order, a \<^verbatim>\<open>SPACE\<close> cell giving no Action.
\<close>

theorem planActions_row_major:
  "labels_of (planActions [[''POLYANET'', ''SPACE''], [''BLUE_SOLOON'', ''RIGHT_COMETH'']]) =
     Inr [''POLYANET @ (0,0)'', ''BLUE_SOLOON @ (1,0)'', ''RIGHT_COMETH @ (1,1)''] \<and>
   (well_formed goal \<longrightarrow> labels_of (planActions goal) = Inr (row_major_labels goal))"
proof
  have wf: "well_formed [[''POLYANET'', ''SPACE''], [''BLUE_SOLOON'', ''RIGHT_COMETH'']]"
    by (simp add: well_formed_def goal_width_def tokens_def)
  have "row_major_labels [[''POLYANET'', ''SPACE''], [''BLUE_SOLOON'', ''RIGHT_COMETH'']] =
      [''POLYANET @ (0,0)'', ''BLUE_SOLOON @ (1,0)'', ''RIGHT_COMETH @ (1,1)'']"
    by (simp add: row_major_labels_def goal_width_def goal_height_def label_def
        toString.simps upt_rec)
  with planActions_labels[OF wf]
  show "labels_of (planActions [[''POLYANET'', ''SPACE''], [''BLUE_SOLOON'', ''RIGHT_COMETH'']]) =
     Inr [''POLYANET @ (0,0)'', ''BLUE_SOLOON @ (1,0)'', ''RIGHT_COMETH @ (1,1)'']"
    by simp
  show "well_formed goal \<longrightarrow> labels_of (planActions goal) = Inr (row_major_labels goal)"
    by (simp add: planActions_labels)
qed

theorem planActions_row_major_witness:
  "well_formed [[''RED_SOLOON''], [''SPACE''], [''UP_COMETH'']] \<and>
   labels_of (planActions [[''RED_SOLOON''], [''SPACE''], [''UP_COMETH'']]) =
     Inr [''RED_SOLOON @ (0,0)'', ''UP_COMETH @ (2,0)'']"
proof -
  have wf: "well_formed [[''RED_SOLOON''], [''SPACE''], [''UP_COMETH'']]"
    by (simp add: well_formed_def goal_width_def tokens_def)
  have "row_major_labels [[''RED_SOLOON''], [''SPACE''], [''UP_COMETH'']] =
      [''RED_SOLOON @ (0,0)'', ''UP_COMETH @ (2,0)'']"
    by (simp add: row_major_labels_def goal_width_def goal_height_def label_def
        toString.simps upt_rec)
  with wf planActions_row_major [of "[[''RED_SOLOON''], [''SPACE''], [''UP_COMETH'']]"]
  show ?thesis by simp
qed

section \<open>Properties of the limiter\<close>

lemmas sim_defs = simulate_def simulate_settled_def Limiter_new_def start_def run_call_def
  run_finally_def run_resume_def js_ge_def

lemma js_ge_Fin: "js_ge (Fin x) (Fin y) \<longleftrightarrow> y \<le> x"
  by (auto simp: js_ge_def)

lemma Limiter_new_int:
  "1 \<le> m \<Longrightarrow>
   Limiter_new (Fin (of_int m)) = Inr \<lparr>max_limiter = Fin (of_int m), active = 0, queue = []\<rparr>"
  by (simp add: Limiter_new_def)

lemma slots_inv_step:
  assumes "slots_inv m s" and "step e s = Some s'" and "e = Call \<longrightarrow> woken s = []"
  shows "slots_inv m s'"
proof (cases e)
  case Call
  with assms show ?thesis
    by (auto simp: slots_inv_def run_call_def Let_def js_ge_Fin)
next
  case (Settle t)
  with assms have t: "t \<in> set (running s)"
    by (auto simp: run_finally_def split: if_splits)
  then have pos: "length (running s) > 0" by (cases "running s") auto
  have "length (remove1 t (running s)) = length (running s) - 1"
    using t by (simp add: length_remove1)
  with pos have len: "int (length (remove1 t (running s))) = int (length (running s)) - 1"
    by linarith
  from assms Settle t len show ?thesis
    by (auto simp: slots_inv_def run_finally_def Let_def split: list.splits)
next
  case Resume
  with assms show ?thesis
    by (auto simp: slots_inv_def run_resume_def split: list.splits)
qed

lemma slots_inv_exec:
  "slots_inv m s \<Longrightarrow> exec evs s = Some s' \<Longrightarrow> arrivals_settled evs s \<Longrightarrow> slots_inv m s'"
proof (induction evs arbitrary: s)
  case Nil
  then show ?case by simp
next
  case (Cons e evs)
  from Cons.prems(2) obtain s1 where s1: "step e s = Some s1" "exec evs s1 = Some s'"
    by (auto split: option.splits)
  from Cons.prems(3) s1 have "e = Call \<longrightarrow> woken s = []" "arrivals_settled evs s1"
    by auto
  with Cons.IH[of s1] slots_inv_step[OF Cons.prems(1) s1(1)] s1(2) show ?case
    by blast
qed

text \<open>The batch runner's schedules, all calls first, meet the condition on
  arrivals.\<close>

lemma no_calls_settled: "Call \<notin> set evs \<Longrightarrow> arrivals_settled evs s"
  by (induction evs arbitrary: s) (auto split: option.splits)

lemma calls_settled:
  "woken s = [] \<Longrightarrow> Call \<notin> set rest \<Longrightarrow> arrivals_settled (replicate n Call @ rest) s"
proof (induction n arbitrary: s)
  case 0
  then show ?case by (simp add: no_calls_settled)
next
  case (Suc n)
  have "woken (run_call s) = []"
    using Suc.prems(1) by (simp add: run_call_def Let_def)
  with Suc show ?case by simp
qed

lemma batch_schedule_settled:
  "\<not> js_lt m (Fin 1) \<Longrightarrow> Call \<notin> set rest \<Longrightarrow> simulate_settled m (replicate n Call @ rest)"
  by (simp add: simulate_settled_def Limiter_new_def calls_settled start_def)

text \<open>
  Claim C1, as amended. For every integer \<open>max \<ge> 1\<close> and every schedule of calls,
  settlements and resumptions on one \<^verbatim>\<open>Limiter(max)\<close> in which no call to
  \<^verbatim>\<open>run\<close> arrives while a woken caller has not resumed yet (as when all tasks are
  submitted up front), at every moment \<open>0 \<le> active \<le> max\<close>, the counter is the
  number of running tasks, the running tasks and the woken callers together are at
  most \<open>max\<close>, and the queue is empty whenever they are fewer than \<open>max\<close>. So never
  more than \<open>max\<close> tasks run at once.
\<close>

theorem limiter_bound_settled:
  assumes "1 \<le> m" and "simulate (Fin (of_int m)) evs = Some s"
    and "simulate_settled (Fin (of_int m)) evs"
  shows "0 \<le> active s \<and> active s \<le> m \<and> int (length (running s)) = active s \<and>
         active s + int (length (woken s)) \<le> m \<and>
         (active s + int (length (woken s)) < m \<longrightarrow> queue s = [])"
proof -
  let ?l = "\<lparr>max_limiter = Fin (of_int m), active = 0, queue = []\<rparr>"
  have l: "Limiter_new (Fin (of_int m)) = Inr ?l"
    using assms(1) by (rule Limiter_new_int)
  have "slots_inv m (start ?l)"
    using assms(1) by (simp add: slots_inv_def start_def)
  moreover have "exec evs (start ?l) = Some s"
    using assms(2) by (simp add: simulate_def l)
  moreover have "arrivals_settled evs (start ?l)"
    using assms(3) by (simp add: simulate_settled_def l)
  ultimately have "slots_inv m s"
    by (rule slots_inv_exec)
  then show ?thesis
    by (auto simp: slots_inv_def)
qed

theorem limiter_bound_settled_witness:
  "simulate_settled (Fin 2) [Call, Call, Call, Call, Settle 1, Resume, Settle 0] \<and>
   simulate (Fin 2) [Call, Call, Call, Call, Settle 1, Resume, Settle 0] =
     Some \<lparr>max_limiter = Fin 2, active = 1, queue = [], woken = [3], running = [2],
            calls = 4, suspended = [2, 3], admitted = [0, 1, 2]\<rparr> \<and>
   active \<lparr>max_limiter = Fin 2, active = 1, queue = [], woken = [3], running = [2],
            calls = 4, suspended = [2, 3], admitted = [0, 1, 2]\<rparr> \<le> 2"
proof -
  have a: "simulate_settled (Fin (of_int 2)) [Call, Call, Call, Call, Settle 1, Resume, Settle 0]"
    by (simp add: sim_defs)
  have e: "simulate (Fin (of_int 2)) [Call, Call, Call, Call, Settle 1, Resume, Settle 0] =
     Some \<lparr>max_limiter = Fin 2, active = 1, queue = [], woken = [3], running = [2],
            calls = 4, suspended = [2, 3], admitted = [0, 1, 2]\<rparr>"
    by (simp add: sim_defs)
  show ?thesis
    using a e limiter_bound_settled [OF _ e a] by simp
qed

text \<open>
  The claim as first stated fails in two ways with \<open>max = 1\<close>. After three calls and
  the first task's end the counter is 0, below \<open>max\<close>, while a caller is still queued:
  the slot is promised to the woken caller, which has not resumed. And when a call
  arrives between a wake-up and the resumption, it takes the free slot and the woken
  caller then takes one too: two tasks run.
\<close>

theorem limiter_invariant_counterexample:
  "map_option active (simulate (Fin 1) [Call, Call, Call, Settle 0]) = Some 0 \<and>
   map_option queue (simulate (Fin 1) [Call, Call, Call, Settle 0]) = Some [2] \<and>
   map_option running (simulate (Fin 1) [Call, Call, Settle 0, Call, Resume]) = Some [2, 1] \<and>
   map_option active (simulate (Fin 1) [Call, Call, Settle 0, Call, Resume]) = Some 2"
  by (simp add: sim_defs)

lemma filter_unchanged:
  "\<forall>a \<in> set xs. a \<noteq> t \<Longrightarrow>
   filter (\<lambda>a. a = t \<or> a \<in> set S) xs = filter (\<lambda>a. a \<in> set S) xs"
  by (induction xs) auto

lemma fifo_inv_step:
  assumes "fifo_inv s" and "step e s = Some s'"
  shows "fifo_inv s'"
proof (cases e)
  case Call
  have "\<forall>a \<in> set (admitted s). a \<noteq> calls s"
    using assms(1) by (auto simp: fifo_inv_def)
  then have f: "filter (\<lambda>a. a = calls s \<or> a \<in> set (suspended s)) (admitted s)
      = filter (\<lambda>a. a \<in> set (suspended s)) (admitted s)"
    by (rule filter_unchanged)
  have n: "calls s \<notin> set (suspended s)"
    using assms(1) by (auto simp: fifo_inv_def)
  from assms Call show ?thesis
    unfolding fifo_inv_def
    by (cases "js_ge (Fin (real_of_int (active s))) (max_limiter s)")
       (auto simp: run_call_def Let_def f n less_Suc_eq)
next
  case (Settle t)
  with assms show ?thesis
    by (auto simp: fifo_inv_def run_finally_def Let_def split: if_splits list.splits)
next
  case Resume
  with assms obtain t ws where w: "woken s = t # ws"
    by (auto simp: run_resume_def split: list.splits)
  with assms(1) have "t \<in> set (suspended s)"
    by (metis fifo_inv_def in_set_conv_decomp append_Cons)
  with assms Resume w show ?thesis
    by (auto simp: fifo_inv_def run_resume_def)
qed

lemma fifo_inv_exec: "fifo_inv s \<Longrightarrow> exec evs s = Some s' \<Longrightarrow> fifo_inv s'"
proof (induction evs arbitrary: s)
  case Nil
  then show ?case by simp
next
  case (Cons e evs)
  then show ?case
    by (auto split: option.splits dest: fifo_inv_step)
qed

text \<open>
  Claim C2. On every Limiter and in every schedule, the callers that found
  \<open>active \<ge> max\<close> and suspended are admitted in the order in which they were
  enqueued: at every moment the suspended callers, in arrival order, are those
  admitted since, in the order of their admission, followed by the woken ones and
  then the queued ones. When nobody is left waiting, with \<open>max = 1\<close> in particular,
  the admission order of the queued tasks is their enqueue order.
\<close>

theorem limiter_fifo:
  assumes "simulate m evs = Some s"
  shows "filter (\<lambda>t. t \<in> set (suspended s)) (admitted s) @ woken s @ queue s = suspended s"
proof -
  from assms obtain l where l: "Limiter_new m = Inr l" "exec evs (start l) = Some s"
    by (auto simp: simulate_def split: sum.splits)
  have "fifo_inv (start l)"
    using l(1) by (auto simp: fifo_inv_def start_def Limiter_new_def split: if_splits)
  with l(2) have "fifo_inv s"
    using fifo_inv_exec by blast
  then show ?thesis
    by (simp add: fifo_inv_def)
qed

theorem limiter_fifo_witness:
  "simulate (Fin 1) [Call, Call, Call, Call, Settle 0, Resume, Settle 1, Resume, Settle 2, Resume] =
     Some \<lparr>max_limiter = Fin 1, active = 1, queue = [], woken = [], running = [3],
            calls = 4, suspended = [1, 2, 3], admitted = [0, 1, 2, 3]\<rparr> \<and>
   filter (\<lambda>t. t \<in> set [1, 2, 3]) [0, 1, 2, 3] = [1, 2, 3 :: nat]"
proof -
  have e: "simulate (Fin 1) [Call, Call, Call, Call, Settle 0, Resume, Settle 1, Resume, Settle 2, Resume] =
     Some \<lparr>max_limiter = Fin 1, active = 1, queue = [], woken = [], running = [3],
            calls = 4, suspended = [1, 2, 3], admitted = [0, 1, 2, 3]\<rparr>"
    by (simp add: sim_defs)
  show ?thesis
    using e limiter_fifo [OF e] by simp
qed

lemma nan_inv_step: "nan_inv s \<Longrightarrow> step e s = Some s' \<Longrightarrow> nan_inv s'"
  by (cases e)
     (auto simp: nan_inv_def run_call_def run_finally_def run_resume_def js_ge_def Let_def
           split: if_splits)

lemma nan_inv_exec: "nan_inv s \<Longrightarrow> exec evs s = Some s' \<Longrightarrow> nan_inv s'"
proof (induction evs arbitrary: s)
  case Nil
  then show ?case by simp
next
  case (Cons e evs)
  then show ?case
    by (auto split: option.splits dest: nan_inv_step)
qed

lemma calls_unbounded:
  "max_limiter s = NaN \<Longrightarrow>
   \<exists>s'. exec (replicate n Call) s = Some s' \<and> active s' = active s + int n \<and>
        length (running s') = length (running s) + n"
proof (induction n arbitrary: s)
  case 0
  then show ?case by simp
next
  case (Suc n)
  let ?s1 = "run_call s"
  have 1: "max_limiter ?s1 = NaN" "active ?s1 = active s + 1"
    "length (running ?s1) = length (running s) + 1"
    using Suc.prems by (simp_all add: run_call_def js_ge_def Let_def)
  from Suc.IH[OF 1(1)] obtain s' where
    "exec (replicate n Call) ?s1 = Some s'" "active s' = active ?s1 + int n"
    "length (running s') = length (running ?s1) + n"
    by blast
  with 1 show ?case by simp
qed

lemma js_lt_one: "js_lt m (Fin 1) \<longleftrightarrow> m = NInf \<or> (\<exists>x. m = Fin x \<and> x < 1)"
  by (cases m) auto

text \<open>
  Claim C10. The Limiter constructor throws exactly when \<^verbatim>\<open>max < 1\<close> is true, that
  is for minus infinity and the finite numbers below 1; it accepts every other
  value, among them the non-integer 1.5 and NaN. With \<open>max = NaN\<close> the admission
  test \<^verbatim>\<open>active >= max\<close> is false for every counter, so in every schedule no caller
  ever suspends, each call is admitted at once, and \<open>n\<close> calls in a row give \<open>n\<close>
  running tasks for every \<open>n\<close>: no bound is enforced.
\<close>

theorem Limiter_accepts_NaN:
  "((\<exists>e. Limiter_new m = Inl e) \<longleftrightarrow> js_lt m (Fin 1)) \<and>
   (js_lt m (Fin 1) \<longleftrightarrow> m = NInf \<or> (\<exists>x. m = Fin x \<and> x < 1)) \<and>
   Limiter_new NaN = Inr \<lparr>max_limiter = NaN, active = 0, queue = []\<rparr> \<and>
   Limiter_new (Fin (3 / 2)) = Inr \<lparr>max_limiter = Fin (3 / 2), active = 0, queue = []\<rparr> \<and>
   \<not> js_ge a NaN \<and>
   (simulate NaN evs = Some s \<longrightarrow>
      suspended s = [] \<and> queue s = [] \<and> woken s = [] \<and> admitted s = [0..<calls s]) \<and>
   map_option active (simulate NaN (replicate n Call)) = Some (int n) \<and>
   map_option (\<lambda>s. length (running s)) (simulate NaN (replicate n Call)) = Some n"
proof (intro conjI impI)
  show "(\<exists>e. Limiter_new m = Inl e) \<longleftrightarrow> js_lt m (Fin 1)"
    by (simp add: Limiter_new_def)
  show "js_lt m (Fin 1) \<longleftrightarrow> m = NInf \<or> (\<exists>x. m = Fin x \<and> x < 1)"
    by (rule js_lt_one)
  show n: "Limiter_new NaN = Inr \<lparr>max_limiter = NaN, active = 0, queue = []\<rparr>"
    by (simp add: Limiter_new_def)
  show "Limiter_new (Fin (3 / 2)) = Inr \<lparr>max_limiter = Fin (3 / 2), active = 0, queue = []\<rparr>"
    by (simp add: Limiter_new_def)
  show "\<not> js_ge a NaN"
    by (simp add: js_ge_def)
  let ?s0 = "start \<lparr>max_limiter = NaN, active = 0, queue = []\<rparr>"
  have s0: "nan_inv ?s0"
    by (simp add: nan_inv_def start_def)
  {
    assume "simulate NaN evs = Some s"
    then have "exec evs ?s0 = Some s"
      by (simp add: simulate_def n)
    with s0 have "nan_inv s"
      by (rule nan_inv_exec)
    then show "suspended s = []" "queue s = []" "woken s = []" "admitted s = [0..<calls s]"
      by (simp_all add: nan_inv_def)
  }
  have "max_limiter ?s0 = NaN" by (simp add: start_def)
  from calls_unbounded[OF this, of n] obtain s' where
    "exec (replicate n Call) ?s0 = Some s'" "active s' = active ?s0 + int n"
    "length (running s') = length (running ?s0) + n"
    by blast
  then show "map_option active (simulate NaN (replicate n Call)) = Some (int n)"
    "map_option (\<lambda>s. length (running s)) (simulate NaN (replicate n Call)) = Some n"
    by (simp_all add: simulate_def n start_def)
qed

theorem Limiter_accepts_NaN_witness:
  "simulate NaN [Call, Call, Call] =
     Some \<lparr>max_limiter = NaN, active = 3, queue = [], woken = [], running = [0, 1, 2],
            calls = 3, suspended = [], admitted = [0, 1, 2]\<rparr> \<and>
   suspended \<lparr>max_limiter = NaN, active = 3, queue = [], woken = [], running = [0, 1, 2],
            calls = 3, suspended = [], admitted = [0, 1, 2]\<rparr> = []"
proof -
  have e: "simulate NaN [Call, Call, Call] =
     Some \<lparr>max_limiter = NaN, active = 3, queue = [], woken = [], running = [0, 1, 2],
            calls = 3, suspended = [], admitted = [0, 1, 2]\<rparr>"
    by (simp add: sim_defs)
  show ?thesis
    using e Limiter_accepts_NaN [where evs = "[Call, Call, Call]" and m = NaN and n = 0 and a = NaN]
    by simp
qed

section \<open>Properties of the retry executor\<close>

lemma transient_iff:
  "transient st \<longleftrightarrow>
     st = Undefined \<or> st = Status (Fin 429) \<or> (\<exists>n. st = Status n \<and> js_ge n (Fin 500))"
  by (cases st) (auto simp: transient_def js_ge_def)

lemma transient_phase1_eq: "transient_phase1 st = transient st"
proof (cases st)
  case (Status n)
  then show ?thesis
    by (cases n) (auto simp: transient_phase1_def transient_def js_ge_def)
qed (auto simp: transient_phase1_def transient_def js_ge_def)

lemma backoff_delay_phase1_eq: "backoff_delay_phase1 ar u b a = backoff_delay ar u b a"
  by (simp add: backoff_delay_phase1_def backoff_delay_def)

lemma withRetry_loop_phase1_eq:
  "withRetry_loop_phase1 ar fn r b h rnd a w = withRetry_loop ar fn r b h rnd a w"
proof (induction ar fn r b h rnd a w rule: withRetry_loop.induct)
  case (1 ar fn r b h rnd a w)
  show ?case
  proof (cases "fn w")
    case (Pair res w')
    show ?thesis
    proof (cases res)
      case (Inr v)
      with Pair show ?thesis
        by (simp add: withRetry_loop.simps[of ar fn r b h rnd a w]
            withRetry_loop_phase1.simps[of ar fn r b h rnd a w])
    next
      case (Inl err)
      show ?thesis
      proof (cases "int a \<ge> r \<or> \<not> transient (status err)")
        case True
        with Pair Inl show ?thesis
          by (simp add: withRetry_loop.simps[of ar fn r b h rnd a w]
              withRetry_loop_phase1.simps[of ar fn r b h rnd a w] transient_phase1_eq)
      next
        case False
        have "withRetry_loop_phase1 ar fn r b h rnd (a + 1) w' = withRetry_loop ar fn r b h rnd (a + 1) w'"
          using "1.IH"[OF Pair[symmetric] Inl False refl] .
        with Pair Inl False show ?thesis
          by (simp add: withRetry_loop.simps[of ar fn r b h rnd a w]
              withRetry_loop_phase1.simps[of ar fn r b h rnd a w] transient_phase1_eq
              backoff_delay_phase1_eq)
      qed
    qed
  qed
qed

lemma withRetry_loop_stop:
  "fn w = (Inl e, w') \<Longrightarrow> r \<le> int a \<or> \<not> transient (status e) \<Longrightarrow>
   withRetry_loop ar fn r b h rnd a w = ([Invoke], Inl e, w')"
  by (simp add: withRetry_loop.simps[of ar fn r b h rnd a w])

lemma withRetry_loop_success:
  "fn w = (Inr v, w') \<Longrightarrow> withRetry_loop ar fn r b h rnd a w = ([Invoke], Inr v, w')"
  by (simp add: withRetry_loop.simps[of ar fn r b h rnd a w])

lemma withRetry_loop_retry:
  "fn w = (Inl e, w') \<Longrightarrow> int a < r \<Longrightarrow> transient (status e) \<Longrightarrow>
   withRetry_loop ar fn r b h rnd a w =
     (Invoke # (if h then [OnRetry e (a + 1)] else []) @
        Sleep (backoff_delay ar (rnd a) b a) # fst (withRetry_loop ar fn r b h rnd (a + 1) w'),
      snd (withRetry_loop ar fn r b h rnd (a + 1) w'))"
  by (simp add: withRetry_loop.simps[of ar fn r b h rnd a w] split: prod.splits)

lemma attempts_single: "attempts ([Invoke], rest) = 1"
  by (simp add: attempts_def)

lemma attempts_pos: "1 \<le> attempts (withRetry_loop ar fn r b h rnd a w)"
proof (cases "fn w")
  case (Pair res w')
  show ?thesis
  proof (cases res)
    case (Inr v)
    with Pair show ?thesis by (simp add: withRetry_loop_success attempts_single)
  next
    case (Inl e)
    show ?thesis
    proof (cases "int a < r \<and> transient (status e)")
      case True
      with Pair Inl show ?thesis
        by (simp add: withRetry_loop_retry attempts_def)
    next
      case False
      with Pair Inl have "withRetry_loop ar fn r b h rnd a w = ([Invoke], Inl e, w')"
        by (intro withRetry_loop_stop) auto
      then show ?thesis by (simp add: attempts_single)
    qed
  qed
qed

lemma retried_iff:
  assumes "fn w = (Inl e, w')"
  shows "1 < attempts (withRetry_loop ar fn r b h rnd a w) \<longleftrightarrow> transient (status e) \<and> int a < r"
proof (cases "int a < r \<and> transient (status e)")
  case True
  then have "withRetry_loop ar fn r b h rnd a w =
     (Invoke # (if h then [OnRetry e (a + 1)] else []) @
        Sleep (backoff_delay ar (rnd a) b a) # fst (withRetry_loop ar fn r b h rnd (a + 1) w'),
      snd (withRetry_loop ar fn r b h rnd (a + 1) w'))"
    using assms by (simp add: withRetry_loop_retry)
  then have "attempts (withRetry_loop ar fn r b h rnd a w) =
      Suc (attempts (withRetry_loop ar fn r b h rnd (a + 1) w'))"
    by (simp add: attempts_def)
  with attempts_pos[of ar fn r b h rnd "a + 1" w'] True show ?thesis
    by simp
next
  case False
  with assms have "withRetry_loop ar fn r b h rnd a w = ([Invoke], Inl e, w')"
    by (intro withRetry_loop_stop) auto
  with False show ?thesis
    by (auto simp: attempts_single)
qed

lemma always_transient_loop:
  assumes "\<forall>w. \<exists>e w'. fn w = (Inl e, w') \<and> transient (status e)"
    and "int a + int k = r"
  shows "attempts (withRetry_loop ar fn r b h rnd a w) = k + 1 \<and>
         snd (withRetry_loop ar fn r b h rnd a w) = fn (world_after fn k w)"
  using assms(2)
proof (induction k arbitrary: a w)
  case 0
  from assms(1) obtain e w' where f: "fn w = (Inl e, w')" "transient (status e)"
    by blast
  with 0 have "withRetry_loop ar fn r b h rnd a w = ([Invoke], Inl e, w')"
    by (intro withRetry_loop_stop) auto
  with f show ?case
    by (simp add: attempts_single)
next
  case (Suc k)
  from assms(1) obtain e w' where f: "fn w = (Inl e, w')" "transient (status e)"
    by blast
  from Suc.prems have lt: "int a < r" by simp
  have step: "withRetry_loop ar fn r b h rnd a w =
     (Invoke # (if h then [OnRetry e (a + 1)] else []) @
        Sleep (backoff_delay ar (rnd a) b a) # fst (withRetry_loop ar fn r b h rnd (a + 1) w'),
      snd (withRetry_loop ar fn r b h rnd (a + 1) w'))"
    using f lt by (simp add: withRetry_loop_retry)
  from Suc.prems have "int (a + 1) + int k = r" by simp
  from Suc.IH[OF this, of w'] have
    ih: "attempts (withRetry_loop ar fn r b h rnd (a + 1) w') = k + 1"
        "snd (withRetry_loop ar fn r b h rnd (a + 1) w') = fn (world_after fn k w')"
    by simp_all
  have w': "w' = snd (fn w)" using f by simp
  have "attempts (withRetry_loop ar fn r b h rnd a w) =
      Suc (attempts (withRetry_loop ar fn r b h rnd (a + 1) w'))"
    unfolding step by (simp add: attempts_def)
  moreover have "snd (withRetry_loop ar fn r b h rnd a w) = fn (world_after fn (Suc k) w)"
    unfolding step using ih(2) by (simp add: w')
  ultimately show ?case
    using ih(1) by simp
qed

text \<open>
  Claim C3. For every \<open>r \<ge> 0\<close> and every operation that fails each time with a
  transient failure, \<^verbatim>\<open>withRetry\<close> with \<open>retries = r\<close> invokes the operation exactly
  \<open>r + 1\<close> times and its outcome is the failure of the last invocation. With
  \<open>retries = 0\<close> it invokes any operation once and returns what that invocation
  gave, with no hook call and no sleep, whatever the kind of failure.
\<close>

theorem withRetry_exhausts:
  "(0 \<le> r \<and> (\<forall>w. \<exists>e w'. fn w = (Inl e, w') \<and> transient (status e)) \<longrightarrow>
      attempts (withRetry ar fn \<lparr>retries = Some r, baseMs = b, onRetry = h\<rparr> rnd w) = nat r + 1 \<and>
      outcome (withRetry ar fn \<lparr>retries = Some r, baseMs = b, onRetry = h\<rparr> rnd w)
        = fst (fn (world_after fn (nat r) w)) \<and>
      isl (outcome (withRetry ar fn \<lparr>retries = Some r, baseMs = b, onRetry = h\<rparr> rnd w))) \<and>
   withRetry ar g \<lparr>retries = Some 0, baseMs = b, onRetry = h\<rparr> rnd v = ([Invoke], g v)"
proof (intro conjI impI)
  assume a: "0 \<le> r \<and> (\<forall>w. \<exists>e w'. fn w = (Inl e, w') \<and> transient (status e))"
  let ?b = "case b of None \<Rightarrow> Fin 250 | Some x \<Rightarrow> x"
  from a have "int 0 + int (nat r) = r" by simp
  from always_transient_loop[OF conjunct2[OF a] this, of ar ?b h rnd w]
  have l: "attempts (withRetry_loop ar fn r ?b h rnd 0 w) = nat r + 1"
    "snd (withRetry_loop ar fn r ?b h rnd 0 w) = fn (world_after fn (nat r) w)"
    by simp_all
  show "attempts (withRetry ar fn \<lparr>retries = Some r, baseMs = b, onRetry = h\<rparr> rnd w) = nat r + 1"
    using l(1) by (simp add: withRetry_def)
  show o: "outcome (withRetry ar fn \<lparr>retries = Some r, baseMs = b, onRetry = h\<rparr> rnd w)
        = fst (fn (world_after fn (nat r) w))"
    using l(2) by (simp add: withRetry_def outcome_def)
  from a obtain e w' where "fn (world_after fn (nat r) w) = (Inl e, w')" by blast
  with o show "isl (outcome (withRetry ar fn \<lparr>retries = Some r, baseMs = b, onRetry = h\<rparr> rnd w))"
    by simp
next
  show "withRetry ar g \<lparr>retries = Some 0, baseMs = b, onRetry = h\<rparr> rnd v = ([Invoke], g v)"
  proof (cases "g v")
    case (Pair res w')
    then show ?thesis
      by (cases res) (simp_all add: withRetry_def withRetry_loop_stop withRetry_loop_success)
  qed
qed

theorem withRetry_exhausts_witness:
  "transient (Status (Fin 503)) \<and>
   attempts (withRetry example_arith (always_fails (Status (Fin 503)))
      \<lparr>retries = Some 3, baseMs = Some (Fin 100), onRetry = True\<rparr> draws_half 0) = 4 \<and>
   outcome (withRetry example_arith (always_fails (Status (Fin 503)))
      \<lparr>retries = Some 3, baseMs = Some (Fin 100), onRetry = True\<rparr> draws_half 0)
      = Inl \<lparr>status = Status (Fin 503), message = ''failed''\<rparr>"
proof -
  have t: "\<forall>w. \<exists>e w'. always_fails (Status (Fin 503)) w = (Inl e, w') \<and> transient (status e)"
    by (simp add: always_fails_def transient_def js_ge_def)
  show ?thesis
    using withRetry_exhausts [where r = 3 and fn = "always_fails (Status (Fin 503))"
        and b = "Some (Fin 100)" and ar = example_arith and h = True and rnd = draws_half and w = 0
        and g = "always_fails (Status (Fin 503))" and v = 0] t
    by (simp add: always_fails_def eval_nat_numeral)
qed

text \<open>
  Claim C4, as amended. \<^verbatim>\<open>withRetry\<close> retries a failed attempt exactly when the
  failure is transient and the attempts made so far are fewer than \<open>retries\<close>. A
  failure is transient exactly when it carries no status, or status 429, or a status
  of at least 500, in both phases. A failure with any other status is fatal: the
  operation has been invoked once more than before, it is not invoked again, the hook
  is not called, nothing is slept, and the failure is the outcome; a fatal first
  failure means exactly one attempt.
\<close>

theorem withRetry_classification:
  "(transient st \<longleftrightarrow>
      st = Undefined \<or> st = Status (Fin 429) \<or> (\<exists>n. st = Status n \<and> js_ge n (Fin 500))) \<and>
   (transient_phase1 st \<longleftrightarrow> transient st) \<and>
   (fn w = (Inl e, w') \<longrightarrow>
      (1 < attempts (withRetry_loop ar fn r b h rnd a w) \<longleftrightarrow> transient (status e) \<and> int a < r) \<and>
      (1 < attempts (withRetry_loop_phase1 ar fn r b h rnd a w)
         \<longleftrightarrow> transient (status e) \<and> int a < r)) \<and>
   (fn w = (Inl e, w') \<and> \<not> transient (status e) \<longrightarrow>
      withRetry_loop ar fn r b h rnd a w = ([Invoke], Inl e, w') \<and>
      withRetry_loop_phase1 ar fn r b h rnd a w = ([Invoke], Inl e, w') \<and>
      withRetry ar fn os rnd w = ([Invoke], Inl e, w') \<and>
      withRetry_phase1 ar fn os rnd w = ([Invoke], Inl e, w'))"
proof (intro conjI impI)
  show "transient st \<longleftrightarrow>
      st = Undefined \<or> st = Status (Fin 429) \<or> (\<exists>n. st = Status n \<and> js_ge n (Fin 500))"
    by (rule transient_iff)
  show "transient_phase1 st \<longleftrightarrow> transient st"
    by (rule transient_phase1_eq)
  {
    assume f: "fn w = (Inl e, w')"
    show "1 < attempts (withRetry_loop ar fn r b h rnd a w) \<longleftrightarrow> transient (status e) \<and> int a < r"
      using f by (rule retried_iff)
    then show "1 < attempts (withRetry_loop_phase1 ar fn r b h rnd a w)
        \<longleftrightarrow> transient (status e) \<and> int a < r"
      by (simp add: withRetry_loop_phase1_eq)
  }
  {
    assume f: "fn w = (Inl e, w') \<and> \<not> transient (status e)"
    then have stop: "withRetry_loop ar fn r' b' h rnd a' w = ([Invoke], Inl e, w')" for r' b' a'
      by (intro withRetry_loop_stop) auto
    show "withRetry_loop ar fn r b h rnd a w = ([Invoke], Inl e, w')"
      by (rule stop)
    show "withRetry_loop_phase1 ar fn r b h rnd a w = ([Invoke], Inl e, w')"
      by (simp add: withRetry_loop_phase1_eq stop)
    from f have stop': "withRetry_loop ar fn r' b' h' rnd a' w = ([Invoke], Inl e, w')" for r' b' a' h'
      by (intro withRetry_loop_stop) auto
    show "withRetry ar fn os rnd w = ([Invoke], Inl e, w')"
      by (simp add: withRetry_def stop')
    show "withRetry_phase1 ar fn os rnd w = ([Invoke], Inl e, w')"
      by (simp add: withRetry_phase1_def withRetry_loop_phase1_eq stop')
  }
qed

theorem withRetry_classification_witness:
  "always_fails (Status (Fin 404)) 0 = (Inl \<lparr>status = Status (Fin 404), message = ''failed''\<rparr>, 1) \<and>
   \<not> transient (Status (Fin 404)) \<and>
   withRetry example_arith (always_fails (Status (Fin 404)))
      \<lparr>retries = Some 6, baseMs = Some (Fin 900), onRetry = True\<rparr> draws_half 0
     = ([Invoke], Inl \<lparr>status = Status (Fin 404), message = ''failed''\<rparr>, 1) \<and>
   1 < attempts (withRetry_loop example_arith (always_fails (Status (Fin 503))) 6 (Fin 900) True draws_half 0 0)"
proof -
  have f: "always_fails (Status (Fin 404)) 0 =
      (Inl \<lparr>status = Status (Fin 404), message = ''failed''\<rparr>, 1)"
    by (simp add: always_fails_def)
  have g: "always_fails (Status (Fin 503)) 0 =
      (Inl \<lparr>status = Status (Fin 503), message = ''failed''\<rparr>, 1)"
    by (simp add: always_fails_def)
  have n: "\<not> transient (Status (Fin 404))" and t: "transient (Status (Fin 503))"
    by (simp_all add: transient_def js_ge_def)
  show ?thesis
    using f n t
      withRetry_classification [where fn = "always_fails (Status (Fin 404))" and w = 0
        and e = "\<lparr>status = Status (Fin 404), message = ''failed''\<rparr>" and w' = 1
        and os = "\<lparr>retries = Some 6, baseMs = Some (Fin 900), onRetry = True\<rparr>" and rnd = draws_half
        and ar = example_arith
        and st = "Status (Fin 404)"]
      withRetry_classification [where fn = "always_fails (Status (Fin 503))" and w = 0
        and e = "\<lparr>status = Status (Fin 503), message = ''failed''\<rparr>" and w' = 1
        and r = 6 and b = "Fin 900" and h = True and a = 0 and rnd = draws_half and ar = example_arith
        and st = "Status (Fin 503)"]
      g
    by simp
qed

text \<open>
  The claim as first stated says a transient failure is always retried. With
  \<open>retries = 0\<close> a failure with status 503 is transient and is not retried: one
  invocation, and the failure is the outcome.
\<close>

theorem withRetry_transient_not_retried_counterexample:
  "transient (Status (Fin 503)) \<and>
   withRetry example_arith (always_fails (Status (Fin 503)))
      \<lparr>retries = Some 0, baseMs = Some (Fin 250), onRetry = True\<rparr> draws_half 0
     = ([Invoke], Inl \<lparr>status = Status (Fin 503), message = ''failed''\<rparr>, 1)"
proof
  show "transient (Status (Fin 503))"
    by (simp add: transient_def js_ge_def)
  have "always_fails (Status (Fin 503)) 0 =
      (Inl \<lparr>status = Status (Fin 503), message = ''failed''\<rparr>, 1)"
    by (simp add: always_fails_def)
  then show "withRetry example_arith (always_fails (Status (Fin 503)))
      \<lparr>retries = Some 0, baseMs = Some (Fin 250), onRetry = True\<rparr> draws_half 0
     = ([Invoke], Inl \<lparr>status = Status (Fin 503), message = ''failed''\<rparr>, 1)"
    by (simp add: withRetry_def withRetry_loop_stop)
qed

lemma backoff_half_0: "backoff_delay example_arith (draws_half 0) (Fin 100) 0 = Fin 50"
  by (simp add: backoff_delay_def draws_half_def example_arith_def)
lemma backoff_half_1: "backoff_delay example_arith (draws_half (Suc 0)) (Fin 100) (Suc 0) = Fin 100"
  by (simp add: backoff_delay_def draws_half_def example_arith_def)

lemma withRetry_scripted_run: "withRetry example_arith scripted \<lparr>retries = Some 2, baseMs = Some (Fin 100), onRetry = True\<rparr> draws_half
       [Status (Fin 500), Undefined] =
     ([Invoke, OnRetry \<lparr>status = Status (Fin 500), message = ''failed''\<rparr> 1, Sleep (Fin 50),
       Invoke, OnRetry \<lparr>status = Undefined, message = ''failed''\<rparr> 2, Sleep (Fin 100),
       Invoke], Inr (), [])"
proof -
  have s0: "scripted [Status (Fin 500), Undefined] =
      (Inl \<lparr>status = Status (Fin 500), message = ''failed''\<rparr>, [Undefined])"
    and s1: "scripted [Undefined] = (Inl \<lparr>status = Undefined, message = ''failed''\<rparr>, [])"
    and s2: "scripted [] = (Inr (), [])"
    by (simp_all add: scripted_def)
  have t: "transient (status \<lparr>status = Status (Fin 500), message = ''failed''\<rparr>)"
    "transient (status \<lparr>status = Undefined, message = ''failed''\<rparr>)"
    by (simp_all add: transient_def js_ge_def)
  have l2: "withRetry_loop example_arith scripted 2 (Fin 100) True draws_half (Suc (Suc 0)) [] = ([Invoke], Inr (), [])"
    using s2 by (rule withRetry_loop_success)
  have l1: "withRetry_loop example_arith scripted 2 (Fin 100) True draws_half (Suc 0) [Undefined] =
      ([Invoke, OnRetry \<lparr>status = Undefined, message = ''failed''\<rparr> 2, Sleep (Fin 100), Invoke], Inr (), [])"
    using withRetry_loop_retry[where fn = scripted and w = "[Undefined]" and w' = "[]"
        and e = "\<lparr>status = Undefined, message = ''failed''\<rparr>" and a = "Suc 0" and r = 2
        and h = True and b = "Fin 100" and rnd = draws_half and ar = example_arith] s1 t(2) l2
    by (simp add: backoff_half_1 numeral_2_eq_2)
  have l0: "withRetry_loop example_arith scripted 2 (Fin 100) True draws_half 0 [Status (Fin 500), Undefined] =
      ([Invoke, OnRetry \<lparr>status = Status (Fin 500), message = ''failed''\<rparr> 1, Sleep (Fin 50),
        Invoke, OnRetry \<lparr>status = Undefined, message = ''failed''\<rparr> 2, Sleep (Fin 100), Invoke], Inr (), [])"
    using withRetry_loop_retry[where fn = scripted and w = "[Status (Fin 500), Undefined]"
        and w' = "[Undefined]" and e = "\<lparr>status = Status (Fin 500), message = ''failed''\<rparr>"
        and a = 0 and r = 2 and h = True and b = "Fin 100" and rnd = draws_half and ar = example_arith] s0 t(1) l1
    by (simp add: backoff_half_0 numeral_2_eq_2)
  show ?thesis
    by (simp add: withRetry_def l0)
qed

text \<open>
  Claim C9. With \<open>retries\<close> and \<open>baseMs\<close> given, the \<^verbatim>\<open>withRetry\<close> of phase 1 and the
  one of phase 2 agree on every operation, options, random draws and starting state:
  the same invocations, hook calls with the same arguments and sleeps with the same
  delays, in the same order, the same outcome and the same final state, whatever the
  double product and power return. They differ
  only in the defaults: phase 1 behaves as phase 2 given 5 and 300 for what is
  absent, where phase 2 itself takes 6 and 250.
\<close>

theorem withRetry_phases_equivalent:
  "(retries os \<noteq> None \<and> baseMs os \<noteq> None \<longrightarrow>
      withRetry_phase1 ar fn os rnd w = withRetry ar fn os rnd w) \<and>
   withRetry_phase1 ar fn os rnd w =
     withRetry ar fn (os\<lparr>retries := Some (case retries os of None \<Rightarrow> 5 | Some r \<Rightarrow> r),
                      baseMs := Some (case baseMs os of None \<Rightarrow> Fin 300 | Some b \<Rightarrow> b)\<rparr>) rnd w \<and>
   withRetry ar fn os rnd w =
     withRetry ar fn (os\<lparr>retries := Some (case retries os of None \<Rightarrow> 6 | Some r \<Rightarrow> r),
                      baseMs := Some (case baseMs os of None \<Rightarrow> Fin 250 | Some b \<Rightarrow> b)\<rparr>) rnd w"
  by (auto simp: withRetry_def withRetry_phase1_def withRetry_loop_phase1_eq)

theorem withRetry_phases_equivalent_witness:
  "retries \<lparr>retries = Some 2, baseMs = Some (Fin 100), onRetry = True\<rparr> \<noteq> None \<and>
   baseMs \<lparr>retries = Some 2, baseMs = Some (Fin 100), onRetry = True\<rparr> \<noteq> None \<and>
   withRetry_phase1 example_arith scripted \<lparr>retries = Some 2, baseMs = Some (Fin 100), onRetry = True\<rparr> draws_half
       [Status (Fin 500), Undefined] =
     ([Invoke, OnRetry \<lparr>status = Status (Fin 500), message = ''failed''\<rparr> 1, Sleep (Fin 50),
       Invoke, OnRetry \<lparr>status = Undefined, message = ''failed''\<rparr> 2, Sleep (Fin 100),
       Invoke], Inr (), [])"
  using withRetry_scripted_run withRetry_phases_equivalent [where os = "\<lparr>retries = Some 2, baseMs = Some (Fin 100), onRetry = True\<rparr>"
        and fn = scripted and rnd = draws_half and w = "[Status (Fin 500), Undefined]"
        and ar = example_arith, THEN conjunct1]
  by simp

end
